theory Spec2Isabelle
  imports Main
begin

section \<open>Parsed locale data\<close>

text \<open>
  A locale file is read with \<^verbatim>\<open>JSON.parse\<close>, so locale data is an arbitrary JSON value.
  A number is held as the text that \<^verbatim>\<open>String(n)\<close> gives for it (the code never computes
  with a number; it only tests it for truth and renders it), so \<open>JNum ''0''\<close> is the one
  falsy number. An object is the list of its own properties in the order in which
  \<^verbatim>\<open>Object.values\<close> enumerates them; the keys of a parsed object are distinct.
  A string is a list of characters, one per code unit.
\<close>

datatype json =
    JNull
  | JBool bool
  | JNum string
  | JStr string
  | JArr "json list"
  | JObj "(string \<times> json) list"

datatype js_error = TypeError | SyntaxError | IOError

text \<open>Truthiness, as tested by \<^verbatim>\<open>if (v)\<close>, \<^verbatim>\<open>!v\<close> and \<^verbatim>\<open>a && b\<close>.\<close>

fun truthy :: "json \<Rightarrow> bool" where
  "truthy JNull = False"
| "truthy (JBool b) = b"
| "truthy (JNum n) = (n \<noteq> ''0'')"
| "truthy (JStr s) = (s \<noteq> [])"
| "truthy (JArr xs) = True"
| "truthy (JObj kvs) = True"

text \<open>\<^verbatim>\<open>typeof v === 'object'\<close> for a truthy \<open>v\<close>: objects and arrays (\<^verbatim>\<open>null\<close> is falsy).\<close>

fun is_object :: "json \<Rightarrow> bool" where
  "is_object (JArr xs) = True"
| "is_object (JObj kvs) = True"
| "is_object v = False"

text \<open>The decimal name of an array index: \<open>0\<close>, \<open>1\<close>, ..., \<open>10\<close>, ...\<close>

definition digit_char :: "nat \<Rightarrow> char" where
  "digit_char d = char_of (48 + d)"

function decimal :: "nat \<Rightarrow> string" where
  "decimal n = (if n < 10 then [digit_char n] else decimal (n div 10) @ [digit_char (n mod 10)])"
  by pat_completeness auto
termination
  by (relation "measure id") auto

text \<open>The element of a list named by an index property such as \<^verbatim>\<open>xs["2"]\<close>.\<close>

definition own_index :: "'a list \<Rightarrow> string \<Rightarrow> 'a option" where
  "own_index xs k = map_option (\<lambda>i. xs ! i) (find (\<lambda>i. decimal i = k) [0..<length xs])"

text \<open>
  Reading a property, \<^verbatim>\<open>v[key]\<close>, with \<open>None\<close> for \<^verbatim>\<open>undefined\<close>; for an object
  or an array the same test decides \<^verbatim>\<open>key in v\<close>. Only own properties are represented.
  A property inherited from a prototype is a function, a prototype object, a number or
  \<^verbatim>\<open>null\<close>; \<^verbatim>\<open>getNestedValue\<close> descends from these to nothing but more of them, and
  \<^verbatim>\<open>getTranslation\<close> answers \<^verbatim>\<open>null\<close> for each of them exactly as it does for
  \<^verbatim>\<open>undefined\<close>.
\<close>

fun js_get :: "json \<Rightarrow> string \<Rightarrow> json option" where
  "js_get (JObj kvs) k = map_of kvs k"
| "js_get (JArr xs) k =
     (if k = ''length'' then Some (JNum (decimal (length xs))) else own_index xs k)"
| "js_get (JStr s) k =
     (if k = ''length'' then Some (JNum (decimal (length s)))
      else map_option (\<lambda>c. JStr [c]) (own_index s k))"
| "js_get v k = None"

text \<open>\<^verbatim>\<open>Object.values(v)\<close> for a truthy \<open>v\<close>.\<close>

fun object_values :: "json \<Rightarrow> json list" where
  "object_values (JObj kvs) = map snd kvs"
| "object_values (JArr xs) = xs"
| "object_values (JStr s) = map (\<lambda>c. JStr [c]) s"
| "object_values v = []"

text \<open>
  \<^verbatim>\<open>String(v)\<close>. An array is joined with commas, \<^verbatim>\<open>null\<close> elements rendered empty. An
  object that owns a \<^verbatim>\<open>toString\<close> property (never callable in parsed data) raises a
  TypeError; any other object renders as \<^verbatim>\<open>[object Object]\<close>.
\<close>

fun join_results :: "(js_error + string) list \<Rightarrow> js_error + string" where
  "join_results [] = Inr []"
| "join_results [r] = r"
| "join_results (r # rs) =
     (case r of
        Inl e \<Rightarrow> Inl e
      | Inr s \<Rightarrow> (case join_results rs of Inl e \<Rightarrow> Inl e | Inr t \<Rightarrow> Inr (s @ '','' @ t)))"

fun js_String :: "json \<Rightarrow> js_error + string" where
  "js_String JNull = Inr ''null''"
| "js_String (JBool b) = Inr (if b then ''true'' else ''false'')"
| "js_String (JNum n) = Inr n"
| "js_String (JStr s) = Inr s"
| "js_String (JObj kvs) =
     (if ''toString'' \<in> fst ` set kvs then Inl TypeError else Inr ''[object Object]'')"
| "js_String (JArr xs) =
     join_results (map (\<lambda>x. if x = JNull then Inr [] else js_String x) xs)"

section \<open>Key resolver\<close>

text \<open>\<^verbatim>\<open>path.split('.')\<close>\<close>

fun split_on :: "char \<Rightarrow> string \<Rightarrow> string list" where
  "split_on sep [] = [[]]"
| "split_on sep (c # cs) =
     (if c = sep then [] # split_on sep cs
      else (case split_on sep cs of w # ws \<Rightarrow> (c # w) # ws | [] \<Rightarrow> [[c]]))"

text \<open>
  \<^verbatim>\<open>getNestedValue\<close>: the reducer descends one segment, answering \<^verbatim>\<open>undefined\<close> unless
  the current value is truthy, of type object, and has the segment.
\<close>

fun nested_step :: "json option \<Rightarrow> string \<Rightarrow> json option" where
  "nested_step None key = None"
| "nested_step (Some current) key =
     (if truthy current \<and> is_object current then js_get current key else None)"

definition getNestedValue :: "json \<Rightarrow> string \<Rightarrow> json option" where
  "getNestedValue obj path = foldl nested_step (Some obj) (split_on (CHR ''.'') path)"

text \<open>
  \<^verbatim>\<open>processParaglideVariant\<close>: the body of the \<^verbatim>\<open>try\<close>, with its exceptions as
  values, and the function itself, whose \<^verbatim>\<open>catch\<close> answers \<^verbatim>\<open>null\<close>.
\<close>

definition processParaglideVariant_try :: "json \<Rightarrow> js_error + string option" where
  "processParaglideVariant_try variantArray =
     (case variantArray of
        JArr [] \<Rightarrow> Inr None
      | JArr (firstVariant # rest) \<Rightarrow>
          (if \<not> truthy firstVariant \<or> \<not> is_object firstVariant then Inr None
           else (case js_get firstVariant ''match'' of
                   None \<Rightarrow> Inr None
                 | Some m \<Rightarrow>
                     (if \<not> truthy m then Inr None
                      else (case object_values m of
                              [] \<Rightarrow> Inr None
                            | v # vs \<Rightarrow>
                                (case js_String v of
                                   Inl e \<Rightarrow> Inl e
                                 | Inr s \<Rightarrow> Inr (Some s))))))
      | _ \<Rightarrow> Inr None)"

definition processParaglideVariant :: "json \<Rightarrow> string option" where
  "processParaglideVariant variantArray =
     (case processParaglideVariant_try variantArray of Inl e \<Rightarrow> None | Inr r \<Rightarrow> r)"

text \<open>
  \<^verbatim>\<open>getTranslation\<close>. \<open>lookup_value\<close> is the value the key is looked up to (nested for
  a key with a dot, a single top-level read otherwise); \<open>leaf_text\<close> is what the function
  makes of that value.
\<close>

definition lookup_value :: "json \<Rightarrow> string \<Rightarrow> json option" where
  "lookup_value translations key =
     (if CHR ''.'' \<in> set key then getNestedValue translations key
      else js_get translations key)"

fun leaf_text :: "json option \<Rightarrow> string option" where
  "leaf_text None = None"
| "leaf_text (Some JNull) = None"
| "leaf_text (Some (JStr s)) = Some s"
| "leaf_text (Some (JArr xs)) =
     (case processParaglideVariant (JArr xs) of
        None \<Rightarrow> None
      | Some variantValue \<Rightarrow> (if variantValue \<noteq> [] then Some (variantValue @ ''*'') else None))"
| "leaf_text (Some v) = None"

definition getTranslation :: "json \<Rightarrow> string \<Rightarrow> string option" where
  "getTranslation translations key =
     (if \<not> truthy translations then None else leaf_text (lookup_value translations key))"

section \<open>Call scanner\<close>

text \<open>
  \<^verbatim>\<open>TranslationCall\<close>. Its \<^verbatim>\<open>end\<close> field is called \<open>end_offset\<close> here. Offsets count
  code units of the scanned text.
\<close>

datatype key_type = Flat | Nested

record TranslationCall =
  methodName :: string
  params :: string
  start :: nat
  end_offset :: nat
  keyType :: key_type

text \<open>
  The character classes of the two patterns: \<^verbatim>\<open>\s\<close> (which is also what \<^verbatim>\<open>trim()\<close>
  strips), the word characters that decide \<^verbatim>\<open>\b\<close>, \<^verbatim>\<open>[a-zA-Z_$]\<close> and
  \<^verbatim>\<open>[a-zA-Z0-9_$]\<close>. Of the white space of JavaScript only the code units below 256 are
  represented.
\<close>

definition is_space :: "char \<Rightarrow> bool" where
  "is_space c = (of_char c \<in> {9, 10, 11, 12, 13, 32, 160 :: nat})"

definition is_word :: "char \<Rightarrow> bool" where
  "is_word c = (c \<in> set ''abcdefghijklmnopqrstuvwxyzABCDEFGHIJKLMNOPQRSTUVWXYZ0123456789_'')"

definition ident_start :: "char \<Rightarrow> bool" where
  "ident_start c = (c \<in> set ''abcdefghijklmnopqrstuvwxyzABCDEFGHIJKLMNOPQRSTUVWXYZ_$'')"

definition ident_char :: "char \<Rightarrow> bool" where
  "ident_char c = (c \<in> set ''abcdefghijklmnopqrstuvwxyzABCDEFGHIJKLMNOPQRSTUVWXYZ0123456789_$'')"

definition trim :: "string \<Rightarrow> string" where
  "trim s = rev (dropWhile is_space (rev (dropWhile is_space s)))"

text \<open>
  The common tail of both patterns, \<^verbatim>\<open>\s*\(\s*([^)]*)\s*\)\<close>, matched at the front of
  \<open>s\<close>: the captured group and the number of code units matched. Each greedy star takes
  its longest run, and giving characters back never helps: the group ends at the first
  closing parenthesis, and there is no match when there is none.
\<close>

definition match_args :: "string \<Rightarrow> (string \<times> nat) option" where
  "match_args s =
     (case dropWhile is_space s of
        [] \<Rightarrow> None
      | c # r \<Rightarrow>
          (if c \<noteq> CHR ''('' then None
           else (let r2 = dropWhile is_space r;
                     g = takeWhile (\<lambda>x. x \<noteq> CHR '')'') r2
                 in if length g < length r2
                    then Some (g, length s - length r2 + length g + 1)
                    else None)))"

text \<open>
  \<^verbatim>\<open>m\.([a-zA-Z_$][a-zA-Z0-9_$]*)\<close> followed by the tail, matched at the front of \<open>s\<close>:
  the two groups and the length of the match.
\<close>

definition match_flat :: "string \<Rightarrow> (string \<times> string \<times> nat) option" where
  "match_flat s =
     (case s of
        m # d # c # rest \<Rightarrow>
          (if m = CHR ''m'' \<and> d = CHR ''.'' \<and> ident_start c
           then (let name = c # takeWhile ident_char rest
                 in (case match_args (dropWhile ident_char rest) of
                       None \<Rightarrow> None
                     | Some (g, n) \<Rightarrow> Some (name, g, 2 + length name + n)))
           else None)
      | _ \<Rightarrow> None)"

text \<open>
  \<^verbatim>\<open>m\[(['"`])([^'"]+)\1\]\<close> followed by the tail. The key group is greedy over the
  characters other than the two straight quotes, so a key of \<open>k\<close> characters is tried for
  the longest \<open>k\<close> first (\<open>nested_at\<close> is the attempt for one \<open>k\<close>); a back-tick may occur
  inside a key.
\<close>

definition nested_at :: "char \<Rightarrow> string \<Rightarrow> nat \<Rightarrow> (string \<times> string \<times> nat) option" where
  "nested_at q rest k =
     (case drop k rest of
        q' # b # after \<Rightarrow>
          (if q' = q \<and> b = CHR '']''
           then (case match_args after of
                   None \<Rightarrow> None
                 | Some (g, n) \<Rightarrow> Some (take k rest, g, 3 + k + 2 + n))
           else None)
      | _ \<Rightarrow> None)"

fun first_some :: "('a \<Rightarrow> 'b option) \<Rightarrow> 'a list \<Rightarrow> 'b option" where
  "first_some f [] = None"
| "first_some f (k # ks) = (case f k of Some r \<Rightarrow> Some r | None \<Rightarrow> first_some f ks)"

definition match_nested :: "string \<Rightarrow> (string \<times> string \<times> nat) option" where
  "match_nested s =
     (case s of
        m # b # q # rest \<Rightarrow>
          (if m = CHR ''m'' \<and> b = CHR ''['' \<and> q \<in> {CHR 0x27, CHR 0x22, CHR 0x60}
           then (let run = takeWhile (\<lambda>x. x \<noteq> CHR 0x27 \<and> x \<noteq> CHR 0x22) rest
                 in first_some (nested_at q rest) (rev [1..<Suc (length run)]))
           else None)
      | _ \<Rightarrow> None)"

text \<open>
  The loop \<^verbatim>\<open>while ((match = pattern.exec(text)) !== null)\<close> of a global pattern that
  starts with \<^verbatim>\<open>\b\<close> before a word character: \<open>i\<close> is the offset of the remaining text,
  \<open>after_word\<close> tells whether the code unit before it is a word character, and the search
  resumes where the last match ended.
\<close>

function exec_all ::
  "(string \<Rightarrow> (string \<times> string \<times> nat) option) \<Rightarrow> key_type \<Rightarrow> nat \<Rightarrow> bool \<Rightarrow> string
     \<Rightarrow> TranslationCall list" where
  "exec_all pat kt i after_word [] = []"
| "exec_all pat kt i after_word (c # cs) =
     (case (if after_word then None else pat (c # cs)) of
        Some (name, g, n) \<Rightarrow>
          \<lparr>methodName = name, params = trim g, start = i, end_offset = i + n, keyType = kt\<rparr>
            # exec_all pat kt (i + n) (is_word ((c # cs) ! (n - 1))) (drop (n - 1) cs)
      | None \<Rightarrow> exec_all pat kt (i + 1) (is_word c) cs)"
  by pat_completeness auto
termination
  by (relation "measure (\<lambda>(pat, kt, i, w, s). length s)") auto

text \<open>
  \<^verbatim>\<open>findTranslationCalls\<close>: the flat matches, then the nested matches, sorted by
  \<^verbatim>\<open>calls.sort((a, b) => a.start - b.start)\<close>, which is a stable sort.
\<close>

definition findTranslationCalls :: "string \<Rightarrow> TranslationCall list" where
  "findTranslationCalls text =
     sort_key start
       (exec_all match_flat Flat 0 False text @ exec_all match_nested Nested 0 False text)"

section \<open>Locale repository\<close>

text \<open>
  The file system as the repository sees it: no entry for a path that does not exist;
  otherwise a file that cannot be read, a file whose text \<^verbatim>\<open>JSON.parse\<close> rejects, or the
  value that \<^verbatim>\<open>JSON.parse\<close> returns for its text.
\<close>

datatype file_content = Unreadable | Malformed | Parsed json

type_synonym file_system = "string \<Rightarrow> file_content option"

text \<open>
  \<^verbatim>\<open>loadTranslations\<close>: the body of the \<^verbatim>\<open>try\<close> and the function. After parsing, the
  log line evaluates \<^verbatim>\<open>Object.keys(translations)\<close>, which raises a TypeError for
  \<^verbatim>\<open>null\<close> and for nothing else. The locale is used for logging only.
\<close>

definition loadTranslations_try :: "file_system \<Rightarrow> string \<Rightarrow> js_error + json option" where
  "loadTranslations_try fs translationFilePath =
     (case fs translationFilePath of
        None \<Rightarrow> Inr None
      | Some Unreadable \<Rightarrow> Inl IOError
      | Some Malformed \<Rightarrow> Inl SyntaxError
      | Some (Parsed translations) \<Rightarrow>
          (if translations = JNull then Inl TypeError else Inr (Some translations)))"

definition loadTranslations :: "file_system \<Rightarrow> string \<Rightarrow> string \<Rightarrow> json option" where
  "loadTranslations fs translationFilePath locale_name =
     (case loadTranslations_try fs translationFilePath of Inl e \<Rightarrow> None | Inr r \<Rightarrow> r)"

text \<open>
  What the services read from their surroundings, fixed for the duration of one pass:
  the files, \<^verbatim>\<open>resolveTranslationPath(workspacePath, locale)\<close>, the \<^verbatim>\<open>locales\<close> of the
  inlang settings of a workspace (\<open>None\<close> when there are no settings or they list no
  locales), the listing of the project's \<^verbatim>\<open>messages\<close> directory, the workspace folder of
  a document and the active project path of a workspace.
\<close>

record env =
  files :: file_system
  resolveTranslationPath :: "string \<Rightarrow> string \<Rightarrow> string"
  inlangLocales :: "string \<Rightarrow> string list option"
  messagesDir :: "string \<Rightarrow> (js_error + string list) option"
  getWorkspaceFolder :: "string \<Rightarrow> string option"
  getActiveProjectPath :: "string \<Rightarrow> string"

definition loadTranslationsForLocale :: "env \<Rightarrow> string \<Rightarrow> string \<Rightarrow> json option" where
  "loadTranslationsForLocale e workspacePath locale_name =
     loadTranslations (files e) (resolveTranslationPath e workspacePath locale_name) locale_name"

section \<open>Fallback search and resolution pipeline\<close>

text \<open>
  The calls a function makes that read files are recorded, in order, beside its result:
  \<^verbatim>\<open>loadInlangSettings(workspacePath)\<close> and
  \<^verbatim>\<open>loadTranslationsForLocale(workspacePath, locale)\<close>.
\<close>

datatype io_call = LoadInlangSettings string | LoadTranslationsForLocale string string

type_synonym 'a traced = "'a \<times> io_call list"

text \<open>The result \<^verbatim>\<open>{ translation, locale }\<close> of the search.\<close>

record search_result =
  translation :: string
  locale_found :: string

text \<open>
  The loop of \<^verbatim>\<open>searchKeyInAllLocales\<close> over the remaining locales, and the function.
  Its \<^verbatim>\<open>catch\<close> answers \<^verbatim>\<open>null\<close>; nothing that is called here raises.
\<close>

fun search_loop ::
  "env \<Rightarrow> string \<Rightarrow> string \<Rightarrow> string \<Rightarrow> string list \<Rightarrow> search_result option traced" where
  "search_loop e workspacePath key currentLocale [] = (None, [])"
| "search_loop e workspacePath key currentLocale (l # ls) =
     (if l = currentLocale then search_loop e workspacePath key currentLocale ls
      else (let translations = loadTranslationsForLocale e workspacePath l;
                translationValue =
                  (case translations of
                     None \<Rightarrow> None
                   | Some t \<Rightarrow> (if truthy t then getTranslation t key else None))
            in (case translationValue of
                  Some v \<Rightarrow>
                    (if v \<noteq> []
                     then (Some \<lparr>translation = v, locale_found = l\<rparr>,
                           [LoadTranslationsForLocale workspacePath l])
                     else (let (r, tr) = search_loop e workspacePath key currentLocale ls
                           in (r, LoadTranslationsForLocale workspacePath l # tr)))
                | None \<Rightarrow>
                    (let (r, tr) = search_loop e workspacePath key currentLocale ls
                     in (r, LoadTranslationsForLocale workspacePath l # tr)))))"

definition searchKeyInAllLocales ::
  "env \<Rightarrow> string \<Rightarrow> string \<Rightarrow> string \<Rightarrow> search_result option traced" where
  "searchKeyInAllLocales e workspacePath key currentLocale =
     (let availableLocales =
            (case inlangLocales e workspacePath of None \<Rightarrow> [''en''] | Some ls \<Rightarrow> ls);
          (r, tr) = search_loop e workspacePath key currentLocale availableLocales
      in (r, LoadInlangSettings workspacePath # tr))"

text \<open>
  \<^verbatim>\<open>TranslationResult\<close>: the call with its value, its warning (\<open>None\<close> for \<^verbatim>\<open>null\<close>)
  and the locale the value was found in (\<open>None\<close> when the field is not set).
\<close>

datatype warning_type = MissingLocale | NoLocale

record TranslationResult = TranslationCall +
  translationValue :: "string option"
  warningType :: "warning_type option"
  foundInLocale :: "string option"

definition with_result ::
  "TranslationCall \<Rightarrow> string option \<Rightarrow> warning_type option \<Rightarrow> string option \<Rightarrow> TranslationResult" where
  "with_result call v w f =
     \<lparr>methodName = methodName call, params = params call, start = start call,
      end_offset = end_offset call, keyType = keyType call,
      translationValue = v, warningType = w, foundInLocale = f\<rparr>"

text \<open>
  \<^verbatim>\<open>processTranslationCallsWithWarnings\<close>: the body of its loop for one call, and the
  loop.
\<close>

definition process_call ::
  "env \<Rightarrow> json \<Rightarrow> string \<Rightarrow> string \<Rightarrow> TranslationCall \<Rightarrow> TranslationResult traced" where
  "process_call e translations workspacePath currentLocale call =
     (let currentTranslation = getTranslation translations (methodName call)
      in if currentTranslation \<noteq> None \<and> currentTranslation \<noteq> Some []
         then (with_result call currentTranslation None None, [])
         else (case searchKeyInAllLocales e workspacePath (methodName call) currentLocale of
                 (Some searchResult, tr) \<Rightarrow>
                   (with_result call (Some (translation searchResult)) (Some MissingLocale)
                      (Some (locale_found searchResult)), tr)
               | (None, tr) \<Rightarrow> (with_result call None (Some NoLocale) None, tr)))"

fun processTranslationCallsWithWarnings ::
  "env \<Rightarrow> TranslationCall list \<Rightarrow> json \<Rightarrow> string \<Rightarrow> string \<Rightarrow> TranslationResult list traced" where
  "processTranslationCallsWithWarnings e [] translations workspacePath currentLocale = ([], [])"
| "processTranslationCallsWithWarnings e (call # calls) translations workspacePath currentLocale =
     (let (r, tr) = process_call e translations workspacePath currentLocale call;
          (rs, trs) = processTranslationCallsWithWarnings e calls translations workspacePath currentLocale
      in (r # rs, tr @ trs))"

section \<open>Sidebar translation data\<close>

text \<open>
  \<^verbatim>\<open>LocaleData\<close> and \<^verbatim>\<open>TranslationKeyData\<close>; the fields \<^verbatim>\<open>locale\<close> and \<^verbatim>\<open>value\<close> of
  the former are called \<open>locale_name\<close> and \<open>locale_value\<close>.
\<close>

record LocaleData =
  locale_name :: string
  locale_value :: string
  workspacePath :: string

record TranslationKeyData =
  key :: string
  locales :: "LocaleData list"

text \<open>A document: its \<^verbatim>\<open>uri\<close> and the result of \<^verbatim>\<open>getText()\<close>.\<close>

record document =
  uri :: string
  getText :: string

text \<open>
  \<^verbatim>\<open>getAvailableLocales\<close>: the locales of the settings; else the names of the
  \<^verbatim>\<open>.json\<close> files of the messages directory, if any; else, and when listing the
  directory raises, \<^verbatim>\<open>['en']\<close>.
\<close>

definition ends_with :: "string \<Rightarrow> string \<Rightarrow> bool" where
  "ends_with s suffix = (length suffix \<le> length s \<and> drop (length s - length suffix) s = suffix)"

definition getAvailableLocales :: "env \<Rightarrow> string \<Rightarrow> string list" where
  "getAvailableLocales e ws =
     (case inlangLocales e ws of
        Some ls \<Rightarrow> ls
      | None \<Rightarrow>
          (case messagesDir e ws of
             None \<Rightarrow> [''en'']
           | Some (Inl err) \<Rightarrow> [''en'']
           | Some (Inr dir_files) \<Rightarrow>
               (let found = map (\<lambda>f. take (length f - 5) f)
                              (filter (\<lambda>f. ends_with f ''.json'') dir_files)
                in if found \<noteq> [] then found else [''en''])))"

text \<open>
  \<^verbatim>\<open>getTranslationData\<close>: the inner loop over the locales for one key, the outer loop
  over the calls, and the function.
\<close>

fun key_locales :: "env \<Rightarrow> string \<Rightarrow> string \<Rightarrow> string \<Rightarrow> string list \<Rightarrow> LocaleData list" where
  "key_locales e ws projectPath k [] = []"
| "key_locales e ws projectPath k (l # ls) =
     (let translations = loadTranslationsForLocale e ws l;
          translationValue =
            (case translations of
               None \<Rightarrow> None
             | Some t \<Rightarrow> (if truthy t then getTranslation t k else None))
      in (case translationValue of
            None \<Rightarrow> key_locales e ws projectPath k ls
          | Some v \<Rightarrow>
              \<lparr>locale_name = l, locale_value = v, workspacePath = projectPath\<rparr>
                # key_locales e ws projectPath k ls))"

fun collect_keys ::
  "env \<Rightarrow> string \<Rightarrow> string \<Rightarrow> string list \<Rightarrow> TranslationCall list \<Rightarrow> TranslationKeyData list" where
  "collect_keys e ws projectPath availableLocales [] = []"
| "collect_keys e ws projectPath availableLocales (call # calls) =
     (let keyData = \<lparr>key = methodName call,
                     locales = key_locales e ws projectPath (methodName call) availableLocales\<rparr>
      in if locales keyData \<noteq> []
         then keyData # collect_keys e ws projectPath availableLocales calls
         else collect_keys e ws projectPath availableLocales calls)"

definition getTranslationData :: "env \<Rightarrow> document option \<Rightarrow> TranslationKeyData list" where
  "getTranslationData e doc =
     (case doc of
        None \<Rightarrow> []
      | Some d \<Rightarrow>
          (case getWorkspaceFolder e (uri d) of
             None \<Rightarrow> []
           | Some ws \<Rightarrow>
               (let projectPath = getActiveProjectPath e ws;
                    translationCalls = findTranslationCalls (getText d)
                in if translationCalls = [] then []
                   else collect_keys e ws projectPath (getAvailableLocales e ws) translationCalls)))"

section \<open>Refresh coordinator\<close>

text \<open>
  \<^verbatim>\<open>TranslationKeysProvider.refresh\<close> is an asynchronous method running on one thread:
  it runs without interruption from one \<^verbatim>\<open>await\<close> to the next, and other calls of
  \<^verbatim>\<open>refresh\<close> may run while it is suspended. All its writes to the provider happen
  either before its first \<^verbatim>\<open>await\<close> or after its last one, so a pass is modelled by two
  steps: the call, up to the first \<^verbatim>\<open>await\<close>, and the end of the body with the
  \<^verbatim>\<open>finally\<close> block.

  The provider has one \<^verbatim>\<open>refreshInProgress\<close> flag and one \<^verbatim>\<open>pendingRefresh\<close> slot for
  all documents. Of its fields the model keeps those that \<^verbatim>\<open>refresh\<close> decides on or that
  the timer callback resets (\<^verbatim>\<open>clearTimeout\<close> as armed or not); the preloaded
  \<^verbatim>\<open>currentTranslations\<close>, \<^verbatim>\<open>currentLocale\<close> and \<^verbatim>\<open>activeProjectPath\<close> are written
  together with \<^verbatim>\<open>translationData\<close> and are left out. Two fields are added to observe
  the passes: \<open>suspended\<close>, the requests of the passes that are suspended in their body,
  oldest first, and \<open>passes\<close>, the requests of all passes started so far, in order.
\<close>

record 'doc PendingRefresh =
  document :: "'doc option"
  force :: bool

record ('doc, 'd) provider =
  translationData :: "'d list"
  currentFilePath :: "'doc option"
  clearTimeout :: bool
  refreshInProgress :: bool
  pendingRefresh :: "'doc PendingRefresh option"
  suspended :: "'doc PendingRefresh list"
  passes :: "'doc PendingRefresh list"

definition initial :: "('doc, 'd) provider" where
  "initial =
     \<lparr>translationData = [], currentFilePath = None, clearTimeout = False,
      refreshInProgress = False, pendingRefresh = None, suspended = [], passes = []\<rparr>"

text \<open>
  A call of \<^verbatim>\<open>refresh\<close> up to its first suspension, and the \<^verbatim>\<open>finally\<close> block. A call
  made while the flag is set only records the request. Otherwise the pass starts; with a
  document it suspends at \<^verbatim>\<open>await this.sidebarService.isTranslationFile(document)\<close>;
  without one it arms the clear timer and returns, so that its \<^verbatim>\<open>finally\<close> block runs
  within the same call. The \<^verbatim>\<open>finally\<close> block resets the flag and calls \<^verbatim>\<open>refresh\<close>
  for a pending request.
\<close>

function refresh :: "'doc PendingRefresh \<Rightarrow> ('doc, 'd) provider \<Rightarrow> ('doc, 'd) provider"
  and finally_block :: "('doc, 'd) provider \<Rightarrow> ('doc, 'd) provider" where
  "refresh request s =
     (if refreshInProgress s then s\<lparr>pendingRefresh := Some request\<rparr>
      else (let s1 = s\<lparr>refreshInProgress := True, clearTimeout := False,
                       passes := passes s @ [request]\<rparr>
            in (case document request of
                  Some d \<Rightarrow> s1\<lparr>suspended := suspended s1 @ [request]\<rparr>
                | None \<Rightarrow> finally_block (s1\<lparr>clearTimeout := True\<rparr>))))"
| "finally_block s =
     (let s1 = s\<lparr>refreshInProgress := False\<rparr>
      in (case pendingRefresh s1 of
            None \<Rightarrow> s1
          | Some pending \<Rightarrow> refresh pending (s1\<lparr>pendingRefresh := None\<rparr>)))"
  by pat_completeness auto
termination
  by (relation "measure (\<lambda>x. case x of
         Inl (r, s) \<Rightarrow> (if pendingRefresh s = None then 1 else 3)
       | Inr s \<Rightarrow> (if pendingRefresh s = None then 0 else 2))") auto

text \<open>
  The rest of the body of a pass for a document, from the answer of
  \<^verbatim>\<open>isTranslationFile\<close> on: a non-forced refresh of a translation file returns early
  and keeps the context; otherwise the data is fetched and stored, unless an exception
  escapes first, which leaves the fields as they are.
\<close>

definition body_end ::
  "'doc PendingRefresh \<Rightarrow> bool \<Rightarrow> js_error + 'd list \<Rightarrow> ('doc, 'd) provider \<Rightarrow> ('doc, 'd) provider" where
  "body_end request isTransFile fetched s =
     (if \<not> force request \<and> isTransFile then s
      else (case fetched of
              Inl err \<Rightarrow> s
            | Inr newData \<Rightarrow> s\<lparr>translationData := newData, currentFilePath := document request\<rparr>))"

text \<open>
  What can happen to the provider: a call of \<^verbatim>\<open>refresh\<close>; the oldest suspended pass
  reaching the end of its body, with what its awaited calls answered; the clear timer
  firing.
\<close>

datatype ('doc, 'd) event =
    Refresh "'doc PendingRefresh"
  | BodyEnds bool "js_error + 'd list"
  | ClearTimerFires

fun step :: "('doc, 'd) event \<Rightarrow> ('doc, 'd) provider \<Rightarrow> ('doc, 'd) provider" where
  "step (Refresh request) s = refresh request s"
| "step (BodyEnds isTransFile fetched) s =
     (case suspended s of
        [] \<Rightarrow> s
      | request # others \<Rightarrow>
          finally_block (body_end request isTransFile fetched (s\<lparr>suspended := others\<rparr>)))"
| "step ClearTimerFires s =
     (if clearTimeout s
      then s\<lparr>translationData := [], currentFilePath := None, clearTimeout := False\<rparr>
      else s)"

definition run :: "('doc, 'd) event list \<Rightarrow> ('doc, 'd) provider \<Rightarrow> ('doc, 'd) provider" where
  "run es s = foldl (\<lambda>s ev. step ev s) s es"

text \<open>
  The invariant of the coordinator: the flag is set exactly while a pass is suspended,
  at most one pass is suspended, and a request is pending only while the flag is set.
\<close>

definition coordinated :: "('doc, 'd) provider \<Rightarrow> bool" where
  "coordinated s \<longleftrightarrow>
     (refreshInProgress s \<longleftrightarrow> suspended s \<noteq> []) \<and> length (suspended s) \<le> 1
     \<and> (\<not> refreshInProgress s \<longrightarrow> pendingRefresh s = None)"

section \<open>A sample project\<close>

text \<open>
  A workspace \<^verbatim>\<open>/w\<close> with the locales \<^verbatim>\<open>en\<close>, \<^verbatim>\<open>fr\<close> and \<^verbatim>\<open>de\<close>: the English
  file holds a plain string, an empty string, a nested mapping and a variant list; the
  French file does not parse; the German file holds a key the English one lacks. A
  further file holds a list at its top level.
\<close>

definition ex_en :: json where
  "ex_en =
     JObj [(''hello'', JStr ''Hello''),
           (''empty'', JStr ''''),
           (''login'', JObj [(''inputs'', JObj [(''email'', JStr ''Email'')])]),
           (''greeting'',
            JArr [JObj [(''match'', JObj [(''x'', JStr ''Hi'')])],
                  JObj [(''match'', JObj [(''x'', JStr ''Yo'')])]])]"

definition ex_de :: json where
  "ex_de = JObj [(''tag'', JStr ''Guten Tag''), (''empty'', JStr '''')]"


definition ex_files :: file_system where
  "ex_files p =
     (if p = ''/w/messages/en.json'' then Some (Parsed ex_en)
      else if p = ''/w/messages/fr.json'' then Some Malformed
      else if p = ''/w/messages/de.json'' then Some (Parsed ex_de)
      else if p = ''/w/messages/it.json'' then Some (Parsed (JArr [JStr ''ciao'']))
      else None)"

definition ex_env :: env where
  "ex_env =
     \<lparr>files = ex_files,
      resolveTranslationPath = (\<lambda>ws l. ws @ ''/messages/'' @ l @ ''.json''),
      inlangLocales = (\<lambda>ws. Some [''en'', ''fr'', ''de'']),
      messagesDir = (\<lambda>ws. None),
      getWorkspaceFolder = (\<lambda>u. Some ''/w''),
      getActiveProjectPath = (\<lambda>ws. ws)\<rparr>"

definition ex_call :: "string \<Rightarrow> nat \<Rightarrow> TranslationCall" where
  "ex_call k i =
     \<lparr>methodName = k, params = [], start = i, end_offset = i + length k + 4, keyType = Flat\<rparr>"

definition ex_document :: document where
  "ex_document = \<lparr>uri = ''/w/src/app.ts'', getText = ''m.hello() + m.tag() + m.none()''\<rparr>"

definition ex_request :: "string \<Rightarrow> bool \<Rightarrow> string PendingRefresh" where
  "ex_request d f = \<lparr>document = Some d, force = f\<rparr>"

section \<open>Properties of the key resolver\<close>

lemma foldl_nested_step_None: "foldl nested_step None segs = None"
  by (induction segs) simp_all

lemma split_on_nonempty: "split_on sep s \<noteq> []"
  by (induction s) (auto split: list.splits)

text \<open>Under a falsy top-level value a key is looked up to nothing, or to a number.\<close>

lemma lookup_falsy:
  assumes "\<not> truthy t" and "lookup_value t k = Some leaf"
  shows "\<exists>n. leaf = JNum n"
proof (cases "CHR ''.'' \<in> set k")
  case True
  obtain seg segs where "split_on (CHR ''.'') k = seg # segs"
    using split_on_nonempty by (cases "split_on (CHR ''.'') k") auto
  with assms True show ?thesis
    by (simp add: lookup_value_def getNestedValue_def foldl_nested_step_None)
next
  case False
  with assms show ?thesis
    by (cases t) (auto simp: lookup_value_def own_index_def split: if_splits)
qed

lemma descent_blocked:
  assumes "case cur of None \<Rightarrow> True
           | Some v \<Rightarrow> \<not> truthy v \<or> \<not> is_object v \<or> js_get v seg = None"
  shows "foldl nested_step (nested_step cur seg) post = None"
proof -
  have "nested_step cur seg = None" using assms by (cases cur) auto
  then show ?thesis by (simp add: foldl_nested_step_None)
qed

lemma string_leaf_verbatim:
  assumes "lookup_value t k = Some (JStr s)"
  shows "getTranslation t k = Some s"
proof -
  have "truthy t" using lookup_falsy[OF _ assms] by auto
  with assms show ?thesis by (simp add: getTranslation_def)
qed








text \<open>
  C6, as the claim states it, fails: a list is not a mapping, yet the resolver descends
  into the variant list of \<^verbatim>\<open>greeting\<close> by the index segment \<^verbatim>\<open>0\<close> and returns the
  string it finds there.
\<close>

theorem list_node_traversed:
  "js_get ex_en ''greeting'' =
     Some (JArr [JObj [(''match'', JObj [(''x'', JStr ''Hi'')])],
                 JObj [(''match'', JObj [(''x'', JStr ''Yo'')])]])
   \<and> getTranslation ex_en ''greeting.0.match.x'' = Some ''Hi''"
  by code_simp

text \<open>
  C6, amended. For a key with a dot the resolver descends from the top-level value one
  segment at a time, and returns \<^verbatim>\<open>null\<close> as soon as a segment is absent from the value
  reached so far or that value is not a mapping or a list (a list has its indices and
  \<^verbatim>\<open>length\<close> as segments); the key as a whole is never looked up at the top level. For
  a key without a dot it makes a single top-level lookup.
\<close>

theorem nested_path_resolution:
  "(CHR ''.'' \<in> set k \<longrightarrow>
      getTranslation t k =
        (if truthy t then leaf_text (foldl nested_step (Some t) (split_on (CHR ''.'') k)) else None)
      \<and> (\<forall>pre seg post.
            split_on (CHR ''.'') k = pre @ seg # post \<and>
            (case foldl nested_step (Some t) pre of
               None \<Rightarrow> True
             | Some v \<Rightarrow> \<not> truthy v \<or> \<not> is_object v \<or> js_get v seg = None)
            \<longrightarrow> getTranslation t k = None))
   \<and> (CHR ''.'' \<notin> set k \<longrightarrow>
        getTranslation t k = (if truthy t then leaf_text (js_get t k) else None))"
proof -
  have blocked: "getTranslation t k = None"
    if "CHR ''.'' \<in> set k" and "split_on (CHR ''.'') k = pre @ seg # post"
      and "case foldl nested_step (Some t) pre of
             None \<Rightarrow> True
           | Some v \<Rightarrow> \<not> truthy v \<or> \<not> is_object v \<or> js_get v seg = None"
    for pre seg post
  proof -
    have "getNestedValue t k = None"
      using that(2) descent_blocked[OF that(3)] by (simp add: getNestedValue_def)
    with that(1) show ?thesis by (simp add: getTranslation_def lookup_value_def)
  qed
  show ?thesis
    using blocked by (simp add: getTranslation_def lookup_value_def getNestedValue_def)
qed

theorem nested_path_resolution_witness:
  "CHR ''.'' \<in> set ''login.missing.email''
   \<and> split_on (CHR ''.'') ''login.missing.email'' = [''login''] @ ''missing'' # [''email'']
   \<and> foldl nested_step (Some ex_en) [''login''] =
       Some (JObj [(''inputs'', JObj [(''email'', JStr ''Email'')])])
   \<and> js_get (JObj [(''inputs'', JObj [(''email'', JStr ''Email'')])]) ''missing'' = None
   \<and> getTranslation ex_en ''login.missing.email'' = None
   \<and> CHR ''.'' \<notin> set ''hello''
   \<and> getTranslation ex_en ''hello'' = leaf_text (js_get ex_en ''hello'')"
proof -
  have d: "CHR ''.'' \<in> set ''login.missing.email''" by simp
  have s: "split_on (CHR ''.'') ''login.missing.email'' = [''login''] @ ''missing'' # [''email'']"
    by code_simp
  have n: "foldl nested_step (Some ex_en) [''login''] =
       Some (JObj [(''inputs'', JObj [(''email'', JStr ''Email'')])])"
    by code_simp
  have g: "js_get (JObj [(''inputs'', JObj [(''email'', JStr ''Email'')])]) ''missing'' = None"
    by code_simp
  have f: "CHR ''.'' \<notin> set ''hello''" by simp
  have tr: "truthy ex_en" by (simp add: ex_en_def)
  from nested_path_resolution[of "''login.missing.email''" ex_en] d
  have "\<forall>pre seg post.
            split_on (CHR ''.'') ''login.missing.email'' = pre @ seg # post \<and>
            (case foldl nested_step (Some ex_en) pre of
               None \<Rightarrow> True
             | Some v \<Rightarrow> \<not> truthy v \<or> \<not> is_object v \<or> js_get v seg = None)
            \<longrightarrow> getTranslation ex_en ''login.missing.email'' = None"
    by blast
  from this[rule_format, of "[''login'']" "''missing''" "[''email'']"] s n g
  have r1: "getTranslation ex_en ''login.missing.email'' = None" by simp
  from nested_path_resolution[of "''hello''" ex_en] f tr
  have r2: "getTranslation ex_en ''hello'' = leaf_text (js_get ex_en ''hello'')" by simp
  show ?thesis using d s n g r1 f r2 by blast
qed

section \<open>Properties of the locale repository\<close>

text \<open>
  C8, as the claim states it, fails: a file whose text parses to a list is loaded as
  that list, not as \<^verbatim>\<open>null\<close>.
\<close>

theorem top_level_list_loaded:
  "loadTranslations ex_files ''/w/messages/it.json'' ''it'' = Some (JArr [JStr ''ciao''])"
  by code_simp

text \<open>
  C8, amended. \<^verbatim>\<open>loadTranslations\<close> never raises, and it returns \<^verbatim>\<open>null\<close> exactly
  when the file does not exist, cannot be read, holds text that does not parse, or
  parses to \<^verbatim>\<open>null\<close>. Every other parsed value is returned as it is, whatever its
  top-level shape: a mapping, but also a list, a string, a number or a boolean.
\<close>

theorem load_null_cases:
  "(loadTranslations fs p l = None \<longleftrightarrow>
      fs p = None \<or> fs p = Some Unreadable \<or> fs p = Some Malformed \<or> fs p = Some (Parsed JNull))
   \<and> (\<forall>v. loadTranslations fs p l = Some v \<longleftrightarrow> fs p = Some (Parsed v) \<and> v \<noteq> JNull)"
  by (auto simp: loadTranslations_def loadTranslations_try_def
           split: option.splits file_content.splits sum.splits if_splits)

theorem load_null_cases_witness:
  "ex_files ''/w/messages/fr.json'' = Some Malformed
   \<and> loadTranslations ex_files ''/w/messages/fr.json'' ''fr'' = None
   \<and> ex_files ''/w/messages/nl.json'' = None
   \<and> loadTranslations ex_files ''/w/messages/nl.json'' ''nl'' = None
   \<and> ex_files ''/w/messages/de.json'' = Some (Parsed ex_de)
   \<and> loadTranslations ex_files ''/w/messages/de.json'' ''de'' = Some ex_de"
proof -
  have fr: "ex_files ''/w/messages/fr.json'' = Some Malformed" by (simp add: ex_files_def)
  have nl: "ex_files ''/w/messages/nl.json'' = None" by (simp add: ex_files_def)
  have de: "ex_files ''/w/messages/de.json'' = Some (Parsed ex_de)" by (simp add: ex_files_def)
  have nn: "ex_de \<noteq> JNull" by (simp add: ex_de_def)
  show ?thesis
    using load_null_cases[of ex_files "''/w/messages/fr.json''" "''fr''"]
      load_null_cases[of ex_files "''/w/messages/nl.json''" "''nl''"]
      load_null_cases[of ex_files "''/w/messages/de.json''" "''de''"]
      fr nl de nn
    by simp
qed

section \<open>Properties of the call scanner\<close>

text \<open>
  C7. The calls are returned in ascending order of \<^verbatim>\<open>start\<close>. Among the calls that
  start at one offset the order is the order of discovery, the flat matches before
  the nested ones. Nothing is added or lost by the sort, so the result is empty when
  neither pattern matches.
\<close>

theorem scan_sorted_stable:
  "sorted (map start (findTranslationCalls text))
   \<and> (\<forall>k. filter (\<lambda>c. start c = k) (findTranslationCalls text) =
          filter (\<lambda>c. start c = k) (exec_all match_flat Flat 0 False text)
          @ filter (\<lambda>c. start c = k) (exec_all match_nested Nested 0 False text))
   \<and> length (findTranslationCalls text) =
       length (exec_all match_flat Flat 0 False text)
       + length (exec_all match_nested Nested 0 False text)
   \<and> (findTranslationCalls text = [] \<longleftrightarrow>
        exec_all match_flat Flat 0 False text = []
        \<and> exec_all match_nested Nested 0 False text = [])"
proof -
  have "length (findTranslationCalls text) =
          length (exec_all match_flat Flat 0 False text)
          + length (exec_all match_nested Nested 0 False text)"
    by (simp add: findTranslationCalls_def)
  moreover from this
  have "findTranslationCalls text = [] \<longleftrightarrow>
          exec_all match_flat Flat 0 False text = []
          \<and> exec_all match_nested Nested 0 False text = []"
    by (metis add_is_0 length_0_conv)
  ultimately show ?thesis
    by (simp add: findTranslationCalls_def sort_key_stable)
qed

theorem scan_sorted_stable_witness:
  "map start (findTranslationCalls (''m['' @ [CHR 0x22] @ ''a.b'' @ [CHR 0x22] @ '']() + m.c(1)''))
     = [0, 13]
   \<and> map methodName
        (findTranslationCalls (''m['' @ [CHR 0x22] @ ''a.b'' @ [CHR 0x22] @ '']() + m.c(1)''))
     = [''a.b'', ''c'']
   \<and> sorted
        (map start
          (findTranslationCalls (''m['' @ [CHR 0x22] @ ''a.b'' @ [CHR 0x22] @ '']() + m.c(1)'')))"
proof -
  have a: "map start
        (findTranslationCalls (''m['' @ [CHR 0x22] @ ''a.b'' @ [CHR 0x22] @ '']() + m.c(1)''))
     = [0, 13]"
    by code_simp
  have b: "map methodName
        (findTranslationCalls (''m['' @ [CHR 0x22] @ ''a.b'' @ [CHR 0x22] @ '']() + m.c(1)''))
     = [''a.b'', ''c'']"
    by code_simp
  show ?thesis
    using scan_sorted_stable[of "''m['' @ [CHR 0x22] @ ''a.b'' @ [CHR 0x22] @ '']() + m.c(1)''"] a b
    by blast
qed

section \<open>Properties of the fallback search\<close>

lemma search_loop_hit:
  assumes "filter (\<lambda>x. x \<noteq> cur) ls = pre @ l # post"
    and "\<forall>x\<in>set pre. \<forall>t v.
           loadTranslationsForLocale e ws x = Some t \<longrightarrow> getTranslation t k = Some v \<longrightarrow> v = []"
    and "loadTranslationsForLocale e ws l = Some t"
    and "getTranslation t k = Some v" and "v \<noteq> []"
  shows "search_loop e ws k cur ls =
           (Some \<lparr>translation = v, locale_found = l\<rparr>,
            map (LoadTranslationsForLocale ws) (pre @ [l]))"
  using assms
proof (induction ls arbitrary: pre)
  case Nil
  then show ?case by simp
next
  case (Cons x xs)
  have tr: "truthy t"
    using Cons.prems(4) by (auto simp: getTranslation_def split: if_splits)
  show ?case
  proof (cases "x = cur")
    case True
    with Cons show ?thesis by simp
  next
    case False
    with Cons.prems(1) have f: "x # filter (\<lambda>x. x \<noteq> cur) xs = pre @ l # post" by simp
    show ?thesis
    proof (cases pre)
      case Nil
      with f have "x = l" by simp
      with False Nil Cons.prems tr show ?thesis by simp
    next
      case (Cons y pre')
      with f have xy: "y = x" and rest: "filter (\<lambda>x. x \<noteq> cur) xs = pre' @ l # post"
        by simp_all
      from Cons.prems(2) Cons xy
      have nox: "\<forall>t v. loadTranslationsForLocale e ws x = Some t \<longrightarrow>
                   getTranslation t k = Some v \<longrightarrow> v = []"
        and nopre: "\<forall>x\<in>set pre'. \<forall>t v. loadTranslationsForLocale e ws x = Some t \<longrightarrow>
                   getTranslation t k = Some v \<longrightarrow> v = []"
        by simp_all
      have ih: "search_loop e ws k cur xs =
           (Some \<lparr>translation = v, locale_found = l\<rparr>,
            map (LoadTranslationsForLocale ws) (pre' @ [l]))"
        using Cons.IH[OF rest nopre Cons.prems(3) Cons.prems(4) Cons.prems(5)] .
      show ?thesis using False nox ih Cons xy
        by (auto split: option.splits)
    qed
  qed
qed

lemma search_loop_miss:
  assumes "\<forall>x\<in>set ls. x \<noteq> cur \<longrightarrow> (\<forall>t v.
             loadTranslationsForLocale e ws x = Some t \<longrightarrow> getTranslation t k = Some v \<longrightarrow> v = [])"
  shows "search_loop e ws k cur ls =
           (None, map (LoadTranslationsForLocale ws) (filter (\<lambda>x. x \<noteq> cur) ls))"
  using assms
  by (induction ls) (auto split: option.splits)

lemma search_loop_found:
  "search_loop e ws k cur ls = (Some r, tr) \<Longrightarrow>
     locale_found r \<noteq> cur \<and> locale_found r \<in> set ls \<and> translation r \<noteq> []"
  by (induction ls arbitrary: tr) (auto split: option.splits if_splits prod.splits simp: Let_def)

lemma search_found:
  assumes "searchKeyInAllLocales e ws k cur = (Some r, tr)"
  shows "locale_found r \<noteq> cur \<and> translation r \<noteq> []"
proof -
  from assms obtain ls tr' where "search_loop e ws k cur ls = (Some r, tr')"
    by (auto simp: searchKeyInAllLocales_def Let_def split: prod.splits)
  then show ?thesis using search_loop_found by blast
qed

text \<open>
  C4, as the claim states it, fails: the German data loads and resolves the key
  \<^verbatim>\<open>empty\<close> (to the empty string), and no other candidate does, yet the search
  returns \<^verbatim>\<open>null\<close>.
\<close>

theorem empty_value_skipped_by_search:
  "loadTranslationsForLocale ex_env ''/w'' ''de'' = Some ex_de
   \<and> getTranslation ex_de ''empty'' = Some []
   \<and> searchKeyInAllLocales ex_env ''/w'' ''empty'' ''en'' =
       (None, [LoadInlangSettings ''/w'', LoadTranslationsForLocale ''/w'' ''fr'',
               LoadTranslationsForLocale ''/w'' ''de''])"
  by code_simp

text \<open>
  C4, amended. The candidates are the configured locales (\<^verbatim>\<open>['en']\<close> when the
  settings list none) in their declared order, without the excluded locale. The search
  returns the first candidate whose data loads and resolves the key to a non-empty
  string, with that string, having loaded the candidates up to that one and none after
  it. A candidate whose file is missing or does not parse, or that resolves the key to
  nothing or to the empty string, is passed over. The search returns \<^verbatim>\<open>null\<close>, having
  loaded every candidate, when no candidate yields a non-empty string.
\<close>

theorem fallback_search_first_nonempty:
  assumes "candidates =
             filter (\<lambda>x. x \<noteq> cur)
               (case inlangLocales e ws of None \<Rightarrow> [''en''] | Some ls \<Rightarrow> ls)"
  shows "(\<forall>pre l post t v.
            candidates = pre @ l # post \<and>
            (\<forall>x\<in>set pre. \<forall>t' v'. loadTranslationsForLocale e ws x = Some t' \<longrightarrow>
                 getTranslation t' k = Some v' \<longrightarrow> v' = []) \<and>
            loadTranslationsForLocale e ws l = Some t \<and> getTranslation t k = Some v \<and> v \<noteq> []
            \<longrightarrow> searchKeyInAllLocales e ws k cur =
                  (Some \<lparr>translation = v, locale_found = l\<rparr>,
                   LoadInlangSettings ws # map (LoadTranslationsForLocale ws) (pre @ [l])))
       \<and> ((\<forall>x\<in>set candidates. \<forall>t' v'. loadTranslationsForLocale e ws x = Some t' \<longrightarrow>
                 getTranslation t' k = Some v' \<longrightarrow> v' = [])
            \<longrightarrow> searchKeyInAllLocales e ws k cur =
                  (None, LoadInlangSettings ws # map (LoadTranslationsForLocale ws) candidates))"
proof (intro conjI allI impI)
  fix pre l post t v
  assume h: "candidates = pre @ l # post \<and>
            (\<forall>x\<in>set pre. \<forall>t' v'. loadTranslationsForLocale e ws x = Some t' \<longrightarrow>
                 getTranslation t' k = Some v' \<longrightarrow> v' = []) \<and>
            loadTranslationsForLocale e ws l = Some t \<and> getTranslation t k = Some v \<and> v \<noteq> []"
  let ?ls = "case inlangLocales e ws of None \<Rightarrow> [''en''] | Some ls \<Rightarrow> ls"
  have "search_loop e ws k cur ?ls =
          (Some \<lparr>translation = v, locale_found = l\<rparr>,
           map (LoadTranslationsForLocale ws) (pre @ [l]))"
    using h assms by (intro search_loop_hit[where post = post and t = t]) simp_all
  then show "searchKeyInAllLocales e ws k cur =
                  (Some \<lparr>translation = v, locale_found = l\<rparr>,
                   LoadInlangSettings ws # map (LoadTranslationsForLocale ws) (pre @ [l]))"
    by (simp add: searchKeyInAllLocales_def)
next
  assume h: "\<forall>x\<in>set candidates. \<forall>t' v'. loadTranslationsForLocale e ws x = Some t' \<longrightarrow>
                 getTranslation t' k = Some v' \<longrightarrow> v' = []"
  let ?ls = "case inlangLocales e ws of None \<Rightarrow> [''en''] | Some ls \<Rightarrow> ls"
  have "search_loop e ws k cur ?ls =
          (None, map (LoadTranslationsForLocale ws) (filter (\<lambda>x. x \<noteq> cur) ?ls))"
    using h assms by (intro search_loop_miss) simp
  then show "searchKeyInAllLocales e ws k cur =
                  (None, LoadInlangSettings ws # map (LoadTranslationsForLocale ws) candidates)"
    by (simp add: searchKeyInAllLocales_def assms)
qed

theorem fallback_search_first_nonempty_witness:
  "[''fr'', ''de''] =
     filter (\<lambda>x. x \<noteq> ''en'')
       (case inlangLocales ex_env ''/w'' of None \<Rightarrow> [''en''] | Some ls \<Rightarrow> ls)
   \<and> loadTranslationsForLocale ex_env ''/w'' ''fr'' = None
   \<and> loadTranslationsForLocale ex_env ''/w'' ''de'' = Some ex_de
   \<and> getTranslation ex_de ''tag'' = Some ''Guten Tag''
   \<and> searchKeyInAllLocales ex_env ''/w'' ''tag'' ''en'' =
       (Some \<lparr>translation = ''Guten Tag'', locale_found = ''de''\<rparr>,
        [LoadInlangSettings ''/w'', LoadTranslationsForLocale ''/w'' ''fr'',
         LoadTranslationsForLocale ''/w'' ''de''])"
proof -
  have c: "[''fr'', ''de''] =
     filter (\<lambda>x. x \<noteq> ''en'')
       (case inlangLocales ex_env ''/w'' of None \<Rightarrow> [''en''] | Some ls \<Rightarrow> ls)"
    by (simp add: ex_env_def)
  have fr: "loadTranslationsForLocale ex_env ''/w'' ''fr'' = None" by code_simp
  have de: "loadTranslationsForLocale ex_env ''/w'' ''de'' = Some ex_de" by code_simp
  have g: "getTranslation ex_de ''tag'' = Some ''Guten Tag''" by code_simp
  have "searchKeyInAllLocales ex_env ''/w'' ''tag'' ''en'' =
       (Some \<lparr>translation = ''Guten Tag'', locale_found = ''de''\<rparr>,
        LoadInlangSettings ''/w'' # map (LoadTranslationsForLocale ''/w'') ([''fr''] @ [''de'']))"
    using fallback_search_first_nonempty[OF c, of "''tag''", THEN conjunct1, rule_format,
        of "[''fr'']" "''de''" "[]" ex_de "''Guten Tag''"] fr de g
    by simp
  then have r: "searchKeyInAllLocales ex_env ''/w'' ''tag'' ''en'' =
       (Some \<lparr>translation = ''Guten Tag'', locale_found = ''de''\<rparr>,
        [LoadInlangSettings ''/w'', LoadTranslationsForLocale ''/w'' ''fr'',
         LoadTranslationsForLocale ''/w'' ''de''])"
    by simp
  show ?thesis using c fr de g r by blast
qed

section \<open>Properties of the resolution pipeline\<close>

lemma process_results:
  "fst (processTranslationCallsWithWarnings e calls t ws cur) =
     map (\<lambda>c. fst (process_call e t ws cur c)) calls"
  by (induction calls) (auto split: prod.splits)

lemma process_trace:
  "snd (processTranslationCallsWithWarnings e calls t ws cur) =
     concat (map (\<lambda>c. snd (process_call e t ws cur c)) calls)"
  by (induction calls) (auto split: prod.splits)

lemma concat_map_nth:
  "i < length xs \<Longrightarrow>
     concat (map f xs) = concat (map f (take i xs)) @ f (xs ! i) @ concat (map f (drop (Suc i) xs))"
  by (induction xs arbitrary: i) (auto simp: nth_Cons split: nat.splits)

lemma process_call_resolved:
  assumes "getTranslation t (methodName c) = Some s" and "s \<noteq> []"
  shows "process_call e t ws cur c = (with_result c (Some s) None None, [])"
  using assms by (simp add: process_call_def)

lemma process_call_invariant:
  assumes "r = fst (process_call e t ws cur c)"
  shows "(warningType r = Some NoLocale \<longrightarrow> translationValue r = None)
       \<and> (warningType r = Some MissingLocale \<longrightarrow>
            (\<exists>v. translationValue r = Some v \<and> v \<noteq> [])
            \<and> (\<exists>l. foundInLocale r = Some l \<and> l \<noteq> cur))"
proof (cases "getTranslation t (methodName c) \<noteq> None \<and> getTranslation t (methodName c) \<noteq> Some []")
  case True
  with assms show ?thesis by (simp add: process_call_def with_result_def)
next
  case False
  obtain sr tr where s: "searchKeyInAllLocales e ws (methodName c) cur = (sr, tr)"
    by (cases "searchKeyInAllLocales e ws (methodName c) cur")
  show ?thesis
  proof (cases sr)
    case None
    with False s assms show ?thesis by (auto simp: process_call_def with_result_def)
  next
    case (Some found)
    with s have "locale_found found \<noteq> cur \<and> translation found \<noteq> []"
      using search_found by blast
    with False s Some assms show ?thesis by (auto simp: process_call_def with_result_def)
  qed
qed

text \<open>
  C1, as the claim states it, fails: the key \<^verbatim>\<open>empty\<close> is looked up to a string leaf
  (the empty string) in the active-locale data, yet its call is not resolved: the
  fallback search runs, finds nothing, and the call gets the warning \<^verbatim>\<open>noLocale\<close>
  and the value \<^verbatim>\<open>null\<close>.
\<close>

theorem empty_string_leaf_not_resolved:
  "lookup_value ex_en ''empty'' = Some (JStr [])
   \<and> processTranslationCallsWithWarnings ex_env [ex_call ''empty'' 0] ex_en ''/w'' ''en'' =
       ([with_result (ex_call ''empty'' 0) None (Some NoLocale) None],
        [LoadInlangSettings ''/w'', LoadTranslationsForLocale ''/w'' ''fr'',
         LoadTranslationsForLocale ''/w'' ''de''])"
  by code_simp

text \<open>
  C1, amended. A call whose key is looked up in the active-locale data to a non-empty
  string leaf is resolved: its warning is \<^verbatim>\<open>null\<close>, its value is that string, and no
  locale is recorded for it. Nothing is read on its behalf: the reads of the pass are
  those made for the calls before it followed by those made for the calls after it.
\<close>

theorem nonempty_string_leaf_resolved:
  assumes "i < length calls"
    and "lookup_value t (methodName (calls ! i)) = Some (JStr s)" and "s \<noteq> []"
  shows "fst (processTranslationCallsWithWarnings e calls t ws cur) ! i =
           with_result (calls ! i) (Some s) None None
       \<and> snd (processTranslationCallsWithWarnings e calls t ws cur) =
           snd (processTranslationCallsWithWarnings e (take i calls) t ws cur)
           @ snd (processTranslationCallsWithWarnings e (drop (Suc i) calls) t ws cur)"
proof -
  have r: "process_call e t ws cur (calls ! i) = (with_result (calls ! i) (Some s) None None, [])"
    using string_leaf_verbatim[OF assms(2)] assms(3) by (rule process_call_resolved)
  have "concat (map (\<lambda>c. snd (process_call e t ws cur c)) calls) =
               concat (map (\<lambda>c. snd (process_call e t ws cur c)) (take i calls))
               @ snd (process_call e t ws cur (calls ! i))
               @ concat (map (\<lambda>c. snd (process_call e t ws cur c)) (drop (Suc i) calls))"
    using assms(1) by (rule concat_map_nth)
  with r assms(1) show ?thesis by (simp add: process_results process_trace)
qed

theorem nonempty_string_leaf_resolved_witness:
  "(1::nat) < length [ex_call ''tag'' 0, ex_call ''hello'' 10]
   \<and> lookup_value ex_en (methodName ([ex_call ''tag'' 0, ex_call ''hello'' 10] ! 1)) =
       Some (JStr ''Hello'')
   \<and> ''Hello'' \<noteq> []
   \<and> fst (processTranslationCallsWithWarnings ex_env [ex_call ''tag'' 0, ex_call ''hello'' 10]
            ex_en ''/w'' ''en'') ! 1 =
       with_result (ex_call ''hello'' 10) (Some ''Hello'') None None"
proof -
  have a: "(1::nat) < length [ex_call ''tag'' 0, ex_call ''hello'' 10]" by simp
  have b: "lookup_value ex_en (methodName ([ex_call ''tag'' 0, ex_call ''hello'' 10] ! 1)) =
       Some (JStr ''Hello'')"
    by code_simp
  have c: "''Hello'' \<noteq> []" by simp
  show ?thesis
    using nonempty_string_leaf_resolved[OF a b c, of ex_env "''/w''" "''en''"] a b c by simp
qed

text \<open>
  C3. Every result of a pass satisfies the state invariant: with the warning
  \<^verbatim>\<open>noLocale\<close> its value is \<^verbatim>\<open>null\<close>; with the warning \<^verbatim>\<open>missingLocale\<close> its
  value is a (non-empty) string and the locale it was found in is set and differs
  from the active locale.
\<close>

theorem resolved_call_invariant:
  "\<forall>r\<in>set (fst (processTranslationCallsWithWarnings e calls t ws cur)).
     (warningType r = Some NoLocale \<longrightarrow> translationValue r = None)
     \<and> (warningType r = Some MissingLocale \<longrightarrow>
          (\<exists>v. translationValue r = Some v \<and> v \<noteq> [])
          \<and> (\<exists>l. foundInLocale r = Some l \<and> l \<noteq> cur))"
proof
  fix r
  assume "r \<in> set (fst (processTranslationCallsWithWarnings e calls t ws cur))"
  then obtain c where "r = fst (process_call e t ws cur c)"
    by (auto simp: process_results)
  then show "(warningType r = Some NoLocale \<longrightarrow> translationValue r = None)
     \<and> (warningType r = Some MissingLocale \<longrightarrow>
          (\<exists>v. translationValue r = Some v \<and> v \<noteq> [])
          \<and> (\<exists>l. foundInLocale r = Some l \<and> l \<noteq> cur))"
    by (rule process_call_invariant)
qed

theorem resolved_call_invariant_witness:
  "fst (processTranslationCallsWithWarnings ex_env [ex_call ''tag'' 0, ex_call ''none'' 10]
          ex_en ''/w'' ''en'') =
     [with_result (ex_call ''tag'' 0) (Some ''Guten Tag'') (Some MissingLocale) (Some ''de''),
      with_result (ex_call ''none'' 10) None (Some NoLocale) None]
   \<and> (\<exists>l. foundInLocale
             (with_result (ex_call ''tag'' 0) (Some ''Guten Tag'') (Some MissingLocale) (Some ''de''))
           = Some l \<and> l \<noteq> ''en'')
   \<and> translationValue (with_result (ex_call ''none'' 10) None (Some NoLocale) None) = None"
proof -
  have a: "fst (processTranslationCallsWithWarnings ex_env [ex_call ''tag'' 0, ex_call ''none'' 10]
          ex_en ''/w'' ''en'') =
     [with_result (ex_call ''tag'' 0) (Some ''Guten Tag'') (Some MissingLocale) (Some ''de''),
      with_result (ex_call ''none'' 10) None (Some NoLocale) None]"
    by code_simp
  have w1: "warningType
              (with_result (ex_call ''tag'' 0) (Some ''Guten Tag'') (Some MissingLocale) (Some ''de''))
            = Some MissingLocale"
    by (simp add: with_result_def)
  have w2: "warningType (with_result (ex_call ''none'' 10) None (Some NoLocale) None) = Some NoLocale"
    by (simp add: with_result_def)
  note inv = resolved_call_invariant[of ex_env "[ex_call ''tag'' 0, ex_call ''none'' 10]"
               ex_en "''/w''" "''en''", unfolded a]
  from inv w1 have b: "\<exists>l. foundInLocale
             (with_result (ex_call ''tag'' 0) (Some ''Guten Tag'') (Some MissingLocale) (Some ''de''))
           = Some l \<and> l \<noteq> ''en''"
    by simp
  from inv w2 have c: "translationValue (with_result (ex_call ''none'' 10) None (Some NoLocale) None) = None"
    by simp
  show ?thesis using a b c by blast
qed

section \<open>Properties of the sidebar translation data\<close>

lemma key_locales_sound:
  "ld \<in> set (key_locales e ws pp k ls) \<Longrightarrow>
     locale_name ld \<in> set ls
     \<and> (\<exists>t. loadTranslationsForLocale e ws (locale_name ld) = Some t
              \<and> getTranslation t k = Some (locale_value ld))"
  by (induction ls) (auto simp: Let_def split: option.splits if_splits)

lemma key_locales_none:
  "\<forall>l\<in>set ls. \<forall>t. loadTranslationsForLocale e ws l = Some t \<longrightarrow> getTranslation t k = None \<Longrightarrow>
     key_locales e ws pp k ls = []"
  by (induction ls) (auto simp: Let_def split: option.splits)

lemma collect_keys_sound:
  "kd \<in> set (collect_keys e ws pp ls calls) \<Longrightarrow>
     locales kd \<noteq> []
     \<and> (\<exists>c\<in>set calls. key kd = methodName c)
     \<and> locales kd = key_locales e ws pp (key kd) ls"
  by (induction calls) (auto simp: Let_def split: if_splits)

lemma data_entries:
  assumes "kd \<in> set (getTranslationData e doc)"
  shows "\<exists>d ws. doc = Some d \<and> getWorkspaceFolder e (uri d) = Some ws
           \<and> kd \<in> set (collect_keys e ws (getActiveProjectPath e ws) (getAvailableLocales e ws)
                          (findTranslationCalls (getText d)))"
proof (cases doc)
  case None
  with assms show ?thesis by (simp add: getTranslationData_def)
next
  case (Some d)
  show ?thesis
  proof (cases "getWorkspaceFolder e (uri d)")
    case None
    with Some assms show ?thesis by (simp add: getTranslationData_def)
  next
    case (Some ws)
    with \<open>doc = Some d\<close> assms show ?thesis
      by (simp add: getTranslationData_def Let_def split: if_splits)
  qed
qed

text \<open>
  C10. Every entry of the data returned by \<^verbatim>\<open>getTranslationData\<close> has a non-empty
  list of locales, and each of them is an available locale whose data loads and
  resolves the entry's key to the value listed, which is not \<^verbatim>\<open>null\<close>. A key of the
  document that resolves to \<^verbatim>\<open>null\<close> in every available locale (because the data
  does not load or does not resolve it) has no entry at all.
\<close>

theorem sidebar_data_translated_keys_only:
  "(\<forall>kd\<in>set (getTranslationData e doc).
      locales kd \<noteq> []
      \<and> (\<forall>ld\<in>set (locales kd).
            \<exists>d ws t. doc = Some d \<and> getWorkspaceFolder e (uri d) = Some ws
              \<and> locale_name ld \<in> set (getAvailableLocales e ws)
              \<and> loadTranslationsForLocale e ws (locale_name ld) = Some t
              \<and> getTranslation t (key kd) = Some (locale_value ld)))
   \<and> (\<forall>d ws k.
        doc = Some d \<and> getWorkspaceFolder e (uri d) = Some ws
        \<and> (\<forall>l\<in>set (getAvailableLocales e ws). \<forall>t.
              loadTranslationsForLocale e ws l = Some t \<longrightarrow> getTranslation t k = None)
        \<longrightarrow> k \<notin> key ` set (getTranslationData e doc))"
proof (intro conjI ballI allI impI)
  fix kd
  assume "kd \<in> set (getTranslationData e doc)"
  then obtain d :: document and ws
    where "kd \<in> set (collect_keys e ws (getActiveProjectPath e ws)
                     (getAvailableLocales e ws) (findTranslationCalls (getText d)))"
    using data_entries by blast
  then show "locales kd \<noteq> []" using collect_keys_sound by blast
next
  fix kd ld
  assume "kd \<in> set (getTranslationData e doc)" and ld: "ld \<in> set (locales kd)"
  then obtain d ws where dw: "doc = Some d" "getWorkspaceFolder e (uri d) = Some ws"
    and "kd \<in> set (collect_keys e ws (getActiveProjectPath e ws)
                     (getAvailableLocales e ws) (findTranslationCalls (getText d)))"
    using data_entries by blast
  then have "locales kd =
               key_locales e ws (getActiveProjectPath e ws) (key kd) (getAvailableLocales e ws)"
    using collect_keys_sound by blast
  with ld have "locale_name ld \<in> set (getAvailableLocales e ws)
     \<and> (\<exists>t. loadTranslationsForLocale e ws (locale_name ld) = Some t
              \<and> getTranslation t (key kd) = Some (locale_value ld))"
    using key_locales_sound by metis
  with dw show "\<exists>d ws t. doc = Some d \<and> getWorkspaceFolder e (uri d) = Some ws
              \<and> locale_name ld \<in> set (getAvailableLocales e ws)
              \<and> loadTranslationsForLocale e ws (locale_name ld) = Some t
              \<and> getTranslation t (key kd) = Some (locale_value ld)"
    by blast
next
  fix d ws k
  assume h: "doc = Some d \<and> getWorkspaceFolder e (uri d) = Some ws
        \<and> (\<forall>l\<in>set (getAvailableLocales e ws). \<forall>t.
              loadTranslationsForLocale e ws l = Some t \<longrightarrow> getTranslation t k = None)"
  show "k \<notin> key ` set (getTranslationData e doc)"
  proof
    assume "k \<in> key ` set (getTranslationData e doc)"
    then obtain kd where kd: "kd \<in> set (getTranslationData e doc)" and k: "key kd = k" by auto
    from data_entries[OF kd] h
    have "kd \<in> set (collect_keys e ws (getActiveProjectPath e ws)
                     (getAvailableLocales e ws) (findTranslationCalls (getText d)))"
      by auto
    then have "locales kd \<noteq> []"
      and "locales kd =
             key_locales e ws (getActiveProjectPath e ws) (key kd) (getAvailableLocales e ws)"
      using collect_keys_sound by blast+
    moreover have "key_locales e ws (getActiveProjectPath e ws) k (getAvailableLocales e ws) = []"
      using h by (intro key_locales_none) simp
    ultimately show False using k by simp
  qed
qed

theorem sidebar_data_translated_keys_only_witness:
  "getTranslationData ex_env (Some ex_document) =
     [\<lparr>key = ''hello'',
       locales = [\<lparr>locale_name = ''en'', locale_value = ''Hello'', workspacePath = ''/w''\<rparr>]\<rparr>,
      \<lparr>key = ''tag'',
       locales = [\<lparr>locale_name = ''de'', locale_value = ''Guten Tag'', workspacePath = ''/w''\<rparr>]\<rparr>]
   \<and> map methodName (findTranslationCalls (getText ex_document)) = [''hello'', ''tag'', ''none'']
   \<and> ''none'' \<notin> key ` set (getTranslationData ex_env (Some ex_document))"
proof -
  have a: "getTranslationData ex_env (Some ex_document) =
     [\<lparr>key = ''hello'',
       locales = [\<lparr>locale_name = ''en'', locale_value = ''Hello'', workspacePath = ''/w''\<rparr>]\<rparr>,
      \<lparr>key = ''tag'',
       locales = [\<lparr>locale_name = ''de'', locale_value = ''Guten Tag'', workspacePath = ''/w''\<rparr>]\<rparr>]"
    by code_simp
  have b: "map methodName (findTranslationCalls (getText ex_document)) = [''hello'', ''tag'', ''none'']"
    by code_simp
  have w: "getWorkspaceFolder ex_env (uri ex_document) = Some ''/w''"
    by (simp add: ex_env_def)
  have l: "getAvailableLocales ex_env ''/w'' = [''en'', ''fr'', ''de'']"
    by (simp add: getAvailableLocales_def ex_env_def)
  have en: "loadTranslationsForLocale ex_env ''/w'' ''en'' = Some ex_en" by code_simp
  have fr: "loadTranslationsForLocale ex_env ''/w'' ''fr'' = None" by code_simp
  have de: "loadTranslationsForLocale ex_env ''/w'' ''de'' = Some ex_de" by code_simp
  have n1: "getTranslation ex_en ''none'' = None" by code_simp
  have n2: "getTranslation ex_de ''none'' = None" by code_simp
  have "\<forall>l\<in>set (getAvailableLocales ex_env ''/w''). \<forall>t.
          loadTranslationsForLocale ex_env ''/w'' l = Some t \<longrightarrow> getTranslation t ''none'' = None"
    using l en fr de n1 n2 by simp
  with w have c: "''none'' \<notin> key ` set (getTranslationData ex_env (Some ex_document))"
    using sidebar_data_translated_keys_only[of ex_env "Some ex_document", THEN conjunct2,
        rule_format, of ex_document "''/w''" "''none''"]
    by blast
  show ?thesis using a b c by blast
qed

section \<open>Properties of the refresh coordinator\<close>

declare refresh.simps [simp del] finally_block.simps [simp del]

lemma finally_block_no_pending:
  "pendingRefresh s = None \<Longrightarrow> finally_block s = s\<lparr>refreshInProgress := False\<rparr>"
  by (simp add: finally_block.simps)

lemma refresh_busy:
  "refreshInProgress s \<Longrightarrow> refresh r s = s\<lparr>pendingRefresh := Some r\<rparr>"
  by (simp add: refresh.simps)

lemma refresh_idle_document:
  "\<not> refreshInProgress s \<Longrightarrow> document r = Some d \<Longrightarrow>
     refresh r s = s\<lparr>refreshInProgress := True, clearTimeout := False,
                     passes := passes s @ [r], suspended := suspended s @ [r]\<rparr>"
  by (simp add: refresh.simps)

lemma refresh_idle_cleared:
  "\<not> refreshInProgress s \<Longrightarrow> document r = None \<Longrightarrow> pendingRefresh s = None \<Longrightarrow>
     refresh r s = s\<lparr>refreshInProgress := False, clearTimeout := True, passes := passes s @ [r]\<rparr>"
  by (simp add: refresh.simps finally_block_no_pending)

lemma finally_block_pending:
  "pendingRefresh s = Some q \<Longrightarrow>
     finally_block s = refresh q (s\<lparr>refreshInProgress := False, pendingRefresh := None\<rparr>)"
  by (simp add: finally_block.simps)

lemma body_end_fields [simp]:
  "refreshInProgress (body_end r b f s) = refreshInProgress s"
  "pendingRefresh (body_end r b f s) = pendingRefresh s"
  "suspended (body_end r b f s) = suspended s"
  "passes (body_end r b f s) = passes s"
  "clearTimeout (body_end r b f s) = clearTimeout s"
  by (auto simp: body_end_def split: sum.splits)

lemma coordinated_initial: "coordinated initial"
  by (simp add: coordinated_def initial_def)

lemma coordinated_refresh: "coordinated s \<Longrightarrow> coordinated (refresh r s)"
proof (cases "refreshInProgress s")
  case True
  assume "coordinated s"
  with True show ?thesis by (simp add: refresh_busy coordinated_def)
next
  case False
  assume c: "coordinated s"
  show ?thesis
  proof (cases "document r")
    case None
    with False c show ?thesis by (simp add: refresh_idle_cleared coordinated_def)
  next
    case (Some d)
    with False c show ?thesis by (simp add: refresh_idle_document coordinated_def)
  qed
qed

lemma coordinated_finally:
  assumes "suspended s = []" and "length (suspended s) \<le> 1"
  shows "coordinated (finally_block s)"
proof (cases "pendingRefresh s")
  case None
  with assms show ?thesis by (simp add: finally_block_no_pending coordinated_def)
next
  case (Some q)
  have "coordinated (s\<lparr>refreshInProgress := False, pendingRefresh := None\<rparr>)"
    using assms by (simp add: coordinated_def)
  then show ?thesis using Some by (simp add: finally_block_pending coordinated_refresh)
qed

lemma coordinated_step: "coordinated s \<Longrightarrow> coordinated (step ev s)"
proof (cases ev)
  case (Refresh r)
  assume "coordinated s"
  then show ?thesis using Refresh by (simp add: coordinated_refresh)
next
  case (BodyEnds b f)
  assume c: "coordinated s"
  show ?thesis
  proof (cases "suspended s")
    case Nil
    with c BodyEnds show ?thesis by simp
  next
    case (Cons r others)
    with c have "others = []" by (simp add: coordinated_def)
    with Cons BodyEnds show ?thesis by (simp add: coordinated_finally)
  qed
next
  case ClearTimerFires
  assume "coordinated s"
  then show ?thesis using ClearTimerFires by (simp add: coordinated_def)
qed

lemma run_snoc: "run (es @ [ev]) s = step ev (run es s)"
  by (simp add: run_def)

lemma coordinated_run: "coordinated s \<Longrightarrow> coordinated (run es s)"
  by (induction es rule: rev_induct) (simp_all add: run_def coordinated_step)

lemma requests_while_busy:
  "refreshInProgress s \<Longrightarrow> rs \<noteq> [] \<Longrightarrow>
     run (map Refresh rs) s = s\<lparr>pendingRefresh := Some (last rs)\<rparr>"
proof (induction rs rule: rev_induct)
  case Nil
  then show ?case by simp
next
  case (snoc r rs)
  show ?case
  proof (cases "rs = []")
    case True
    with snoc.prems show ?thesis by (simp add: run_def refresh_busy)
  next
    case False
    with snoc have "run (map Refresh rs) s = s\<lparr>pendingRefresh := Some (last rs)\<rparr>" by simp
    with snoc.prems show ?thesis by (simp add: run_snoc refresh_busy)
  qed
qed

lemma body_ends_follow_up:
  assumes "coordinated s" and "refreshInProgress s" and "pendingRefresh s = Some q"
  shows "passes (step (BodyEnds b f) s) = passes s @ [q]"
    and "pendingRefresh (step (BodyEnds b f) s) = None"
    and "suspended (step (BodyEnds b f) s) = (if document q = None then [] else [q])"
    and "refreshInProgress (step (BodyEnds b f) s) \<longleftrightarrow> document q \<noteq> None"
proof -
  from assms obtain p where p: "suspended s = [p]"
    by (cases "suspended s") (auto simp: coordinated_def)
  let ?m = "body_end p b f (s\<lparr>suspended := []\<rparr>)"
  have st: "step (BodyEnds b f) s =
              refresh q (?m\<lparr>refreshInProgress := False, pendingRefresh := None\<rparr>)"
    using p assms(3) by (simp add: finally_block_pending)
  show "passes (step (BodyEnds b f) s) = passes s @ [q]"
    unfolding st by (cases "document q") (simp_all add: refresh_idle_cleared refresh_idle_document)
  show "pendingRefresh (step (BodyEnds b f) s) = None"
    unfolding st by (cases "document q") (simp_all add: refresh_idle_cleared refresh_idle_document)
  show "suspended (step (BodyEnds b f) s) = (if document q = None then [] else [q])"
    unfolding st by (cases "document q") (simp_all add: refresh_idle_cleared refresh_idle_document)
  show "refreshInProgress (step (BodyEnds b f) s) \<longleftrightarrow> document q \<noteq> None"
    unfolding st by (cases "document q") (simp_all add: refresh_idle_cleared refresh_idle_document)
qed

lemma body_ends_idle:
  assumes "coordinated s" and "refreshInProgress s" and "pendingRefresh s = None"
  shows "passes (step (BodyEnds b f) s) = passes s"
    and "pendingRefresh (step (BodyEnds b f) s) = None"
    and "suspended (step (BodyEnds b f) s) = []"
    and "\<not> refreshInProgress (step (BodyEnds b f) s)"
proof -
  from assms obtain p where p: "suspended s = [p]"
    by (cases "suspended s") (auto simp: coordinated_def)
  have st: "step (BodyEnds b f) s = (body_end p b f (s\<lparr>suspended := []\<rparr>))\<lparr>refreshInProgress := False\<rparr>"
    using p assms(3) by (simp add: finally_block_no_pending)
  show "passes (step (BodyEnds b f) s) = passes s" unfolding st by simp
  show "pendingRefresh (step (BodyEnds b f) s) = None" unfolding st using assms(3) by simp
  show "suspended (step (BodyEnds b f) s) = []" unfolding st by simp
  show "\<not> refreshInProgress (step (BodyEnds b f) s)" unfolding st by simp
qed

text \<open>
  C2, as the claim states it, fails. While a pass for \<^verbatim>\<open>a.ts\<close> is in flight, a forced
  request for the same document arrives and is recorded; then a request for \<^verbatim>\<open>b.ts\<close>
  arrives and takes its place, because the provider has one pending slot for all
  documents. When the pass ends, the pass that follows is the one for \<^verbatim>\<open>b.ts\<close>, and
  when that ends the coordinator is idle: the forced request for \<^verbatim>\<open>a.ts\<close>, the latest
  for the target of the pass that was in flight, never runs.
\<close>

theorem same_target_request_dropped:
  "document (ex_request ''a.ts'' True) = document (ex_request ''a.ts'' False)
   \<and> pendingRefresh
       (run [Refresh (ex_request ''a.ts'' False), Refresh (ex_request ''a.ts'' True)]
          (initial :: (string, nat) provider)) = Some (ex_request ''a.ts'' True)
   \<and> passes
       (run [Refresh (ex_request ''a.ts'' False), Refresh (ex_request ''a.ts'' True),
             Refresh (ex_request ''b.ts'' False), BodyEnds False (Inr [1])]
          (initial :: (string, nat) provider)) =
       [ex_request ''a.ts'' False, ex_request ''b.ts'' False]
   \<and> passes
       (run [Refresh (ex_request ''a.ts'' False), Refresh (ex_request ''a.ts'' True),
             Refresh (ex_request ''b.ts'' False), BodyEnds False (Inr [1]),
             BodyEnds False (Inr [2])]
          (initial :: (string, nat) provider)) =
       [ex_request ''a.ts'' False, ex_request ''b.ts'' False]
   \<and> refreshInProgress
       (run [Refresh (ex_request ''a.ts'' False), Refresh (ex_request ''a.ts'' True),
             Refresh (ex_request ''b.ts'' False), BodyEnds False (Inr [1]),
             BodyEnds False (Inr [2])]
          (initial :: (string, nat) provider)) = False
   \<and> pendingRefresh
       (run [Refresh (ex_request ''a.ts'' False), Refresh (ex_request ''a.ts'' True),
             Refresh (ex_request ''b.ts'' False), BodyEnds False (Inr [1]),
             BodyEnds False (Inr [2])]
          (initial :: (string, nat) provider)) = None"
  by (simp add: run_def initial_def ex_request_def body_end_def
        refresh_idle_document[where d = "''a.ts''"] refresh_idle_document[where d = "''b.ts''"]
        refresh_busy finally_block_pending finally_block_no_pending)

text \<open>
  C2, amended. The provider has one flag and one pending slot for all targets. In every
  state the coordinator can reach, at most one pass, for whatever target, is suspended
  in its body. While one is, any number of further requests, for the same target or
  for others, start no pass: they leave the state as it is but for the pending slot,
  which holds the last of them. When the body then ends, exactly one more pass starts,
  with the parameters of that last request, and the slot is empty again; the pass is
  now the one in flight (a pass without a document runs to its end at once). When a
  body ends with nothing pending, no pass starts and the coordinator is idle.
\<close>

theorem single_flight_coalescing:
  assumes "s = run es initial"
  shows "length (suspended s) \<le> 1
       \<and> (refreshInProgress s \<longleftrightarrow> suspended s \<noteq> [])
       \<and> (\<forall>rs. refreshInProgress s \<and> rs \<noteq> [] \<longrightarrow>
             run (map Refresh rs) s = s\<lparr>pendingRefresh := Some (last rs)\<rparr>)
       \<and> (\<forall>rs b f. refreshInProgress s \<and> rs \<noteq> [] \<longrightarrow>
             passes (step (BodyEnds b f) (run (map Refresh rs) s)) = passes s @ [last rs]
             \<and> pendingRefresh (step (BodyEnds b f) (run (map Refresh rs) s)) = None
             \<and> suspended (step (BodyEnds b f) (run (map Refresh rs) s)) =
                 (if document (last rs) = None then [] else [last rs]))
       \<and> (\<forall>b f. refreshInProgress s \<and> pendingRefresh s = None \<longrightarrow>
             passes (step (BodyEnds b f) s) = passes s
             \<and> suspended (step (BodyEnds b f) s) = []
             \<and> \<not> refreshInProgress (step (BodyEnds b f) s)
             \<and> pendingRefresh (step (BodyEnds b f) s) = None)"
proof -
  have c: "coordinated s"
    unfolding assms using coordinated_initial by (rule coordinated_run)
  have queued: "coordinated (s\<lparr>pendingRefresh := Some q\<rparr>)" if "refreshInProgress s" for q
    using c that by (simp add: coordinated_def)
  show ?thesis
  proof (intro conjI allI impI)
    show "length (suspended s) \<le> 1" using c by (simp add: coordinated_def)
    show "refreshInProgress s \<longleftrightarrow> suspended s \<noteq> []" using c by (simp add: coordinated_def)
  next
    fix rs :: "'a PendingRefresh list"
    assume "refreshInProgress s \<and> rs \<noteq> []"
    then show "run (map Refresh rs) s = s\<lparr>pendingRefresh := Some (last rs)\<rparr>"
      by (simp add: requests_while_busy)
  next
    fix rs :: "'a PendingRefresh list" and b and f :: "js_error + 'b list"
    assume h: "refreshInProgress s \<and> rs \<noteq> []"
    then have r: "run (map Refresh rs) s = s\<lparr>pendingRefresh := Some (last rs)\<rparr>"
      by (simp add: requests_while_busy)
    have q: "coordinated (s\<lparr>pendingRefresh := Some (last rs)\<rparr>)" using h by (simp add: queued)
    have busy: "refreshInProgress (s\<lparr>pendingRefresh := Some (last rs)\<rparr>)" using h by simp
    have pend: "pendingRefresh (s\<lparr>pendingRefresh := Some (last rs)\<rparr>) = Some (last rs)" by simp
    show "passes (step (BodyEnds b f) (run (map Refresh rs) s)) = passes s @ [last rs]"
      unfolding r using body_ends_follow_up(1)[OF q busy pend, of b f] by simp
    show "pendingRefresh (step (BodyEnds b f) (run (map Refresh rs) s)) = None"
      unfolding r using body_ends_follow_up(2)[OF q busy pend, of b f] by simp
    show "suspended (step (BodyEnds b f) (run (map Refresh rs) s)) =
            (if document (last rs) = None then [] else [last rs])"
      unfolding r using body_ends_follow_up(3)[OF q busy pend, of b f] by simp
  next
    fix b and f :: "js_error + 'b list"
    assume h: "refreshInProgress s \<and> pendingRefresh s = None"
    show "passes (step (BodyEnds b f) s) = passes s"
      using body_ends_idle(1)[OF c] h by blast
    show "suspended (step (BodyEnds b f) s) = []"
      using body_ends_idle(3)[OF c] h by blast
    show "\<not> refreshInProgress (step (BodyEnds b f) s)"
      using body_ends_idle(4)[OF c] h by blast
    show "pendingRefresh (step (BodyEnds b f) s) = None"
      using body_ends_idle(2)[OF c] h by blast
  qed
qed

lemma ex_first_pass:
  "run [Refresh (ex_request ''a.ts'' False)] (initial :: (string, nat) provider) =
     initial\<lparr>refreshInProgress := True, passes := [ex_request ''a.ts'' False],
             suspended := [ex_request ''a.ts'' False]\<rparr>"
  by (simp add: run_def refresh_idle_document[where d = "''a.ts''"] initial_def ex_request_def)

theorem single_flight_coalescing_witness:
  "refreshInProgress (run [Refresh (ex_request ''a.ts'' False)] (initial :: (string, nat) provider))
   \<and> passes (run [Refresh (ex_request ''a.ts'' False)] (initial :: (string, nat) provider)) =
       [ex_request ''a.ts'' False]
   \<and> passes
       (step (BodyEnds False (Inr [1]))
         (run (map Refresh
                [ex_request ''a.ts'' False, ex_request ''b.ts'' False, ex_request ''a.ts'' True])
           (run [Refresh (ex_request ''a.ts'' False)] (initial :: (string, nat) provider)))) =
       [ex_request ''a.ts'' False, ex_request ''a.ts'' True]
   \<and> suspended
       (step (BodyEnds False (Inr [1]))
         (run (map Refresh
                [ex_request ''a.ts'' False, ex_request ''b.ts'' False, ex_request ''a.ts'' True])
           (run [Refresh (ex_request ''a.ts'' False)] (initial :: (string, nat) provider)))) =
       [ex_request ''a.ts'' True]"
proof -
  let ?s = "run [Refresh (ex_request ''a.ts'' False)] (initial :: (string, nat) provider)"
  let ?rs = "[ex_request ''a.ts'' False, ex_request ''b.ts'' False, ex_request ''a.ts'' True]"
  have busy: "refreshInProgress ?s" by (simp add: ex_first_pass)
  have p: "passes ?s = [ex_request ''a.ts'' False]" by (simp add: ex_first_pass)
  have ne: "?rs \<noteq> []" by simp
  have d: "document (last ?rs) \<noteq> None" by (simp add: ex_request_def)
  note t = single_flight_coalescing[OF refl, of "[Refresh (ex_request ''a.ts'' False)]"]
  from t busy ne
  have "passes (step (BodyEnds False (Inr [1])) (run (map Refresh ?rs) ?s)) = passes ?s @ [last ?rs]
      \<and> suspended (step (BodyEnds False (Inr [1])) (run (map Refresh ?rs) ?s)) =
          (if document (last ?rs) = None then [] else [last ?rs])"
    by blast
  with p d have "passes (step (BodyEnds False (Inr [1])) (run (map Refresh ?rs) ?s)) =
                   [ex_request ''a.ts'' False, ex_request ''a.ts'' True]
      \<and> suspended (step (BodyEnds False (Inr [1])) (run (map Refresh ?rs) ?s)) =
          [ex_request ''a.ts'' True]"
    by simp
  with busy p show ?thesis by blast
qed

text \<open>
  C9. Whatever the body of the pass in flight does when it ends (it stores the fetched
  data, returns early to keep the context, or throws), the pass is no longer in flight
  afterwards. With nothing pending the flag is reset and the coordinator is idle. With
  a request pending, that request is executed: one more pass starts with it, and the
  flag is set afterwards only on behalf of that new pass. A pass without a document,
  which returns early within the call that starts it, leaves the flag reset as well.
\<close>

theorem pass_completion_resets:
  assumes "s = run es initial"
  shows "(\<forall>p others b f.
            suspended s = p # others \<longrightarrow>
            (case pendingRefresh s of
               None \<Rightarrow>
                 \<not> refreshInProgress (step (BodyEnds b f) s)
                 \<and> suspended (step (BodyEnds b f) s) = []
                 \<and> passes (step (BodyEnds b f) s) = passes s
             | Some q \<Rightarrow>
                 passes (step (BodyEnds b f) s) = passes s @ [q]
                 \<and> pendingRefresh (step (BodyEnds b f) s) = None
                 \<and> suspended (step (BodyEnds b f) s) = (if document q = None then [] else [q])
                 \<and> (refreshInProgress (step (BodyEnds b f) s) \<longleftrightarrow> document q \<noteq> None)))
       \<and> (\<forall>r. \<not> refreshInProgress s \<and> document r = None \<longrightarrow>
             \<not> refreshInProgress (step (Refresh r) s)
             \<and> suspended (step (Refresh r) s) = []
             \<and> passes (step (Refresh r) s) = passes s @ [r])"
proof -
  have c: "coordinated s"
    unfolding assms using coordinated_initial by (rule coordinated_run)
  have ends: "case pendingRefresh s of
               None \<Rightarrow>
                 \<not> refreshInProgress (step (BodyEnds b f) s)
                 \<and> suspended (step (BodyEnds b f) s) = []
                 \<and> passes (step (BodyEnds b f) s) = passes s
             | Some q \<Rightarrow>
                 passes (step (BodyEnds b f) s) = passes s @ [q]
                 \<and> pendingRefresh (step (BodyEnds b f) s) = None
                 \<and> suspended (step (BodyEnds b f) s) = (if document q = None then [] else [q])
                 \<and> (refreshInProgress (step (BodyEnds b f) s) \<longleftrightarrow> document q \<noteq> None)"
    if "suspended s = p # others" for p others b and f :: "js_error + 'b list"
  proof -
    from c that have busy: "refreshInProgress s" by (simp add: coordinated_def)
    show ?thesis
    proof (cases "pendingRefresh s")
      case None
      with body_ends_idle[OF c busy None, of b f] show ?thesis by simp
    next
      case (Some q)
      with body_ends_follow_up[OF c busy Some, of b f] show ?thesis by simp
    qed
  qed
  have cleared: "\<not> refreshInProgress (step (Refresh r) s)
             \<and> suspended (step (Refresh r) s) = []
             \<and> passes (step (Refresh r) s) = passes s @ [r]"
    if "\<not> refreshInProgress s \<and> document r = None" for r
    using c that by (simp add: refresh_idle_cleared coordinated_def)
  show ?thesis using ends cleared by blast
qed

lemma ex_pass_with_pending:
  "run [Refresh (ex_request ''a.ts'' False), Refresh (ex_request ''b.ts'' True)]
       (initial :: (string, nat) provider) =
     initial\<lparr>refreshInProgress := True, passes := [ex_request ''a.ts'' False],
             suspended := [ex_request ''a.ts'' False],
             pendingRefresh := Some (ex_request ''b.ts'' True)\<rparr>"
  by (simp add: run_def refresh_idle_document[where d = "''a.ts''"] refresh_busy
        initial_def ex_request_def)

theorem pass_completion_resets_witness:
  "suspended (run [Refresh (ex_request ''a.ts'' False), Refresh (ex_request ''b.ts'' True)]
                (initial :: (string, nat) provider)) = [ex_request ''a.ts'' False]
   \<and> pendingRefresh (run [Refresh (ex_request ''a.ts'' False), Refresh (ex_request ''b.ts'' True)]
                (initial :: (string, nat) provider)) = Some (ex_request ''b.ts'' True)
   \<and> passes
       (step (BodyEnds False (Inl TypeError))
         (run [Refresh (ex_request ''a.ts'' False), Refresh (ex_request ''b.ts'' True)]
            (initial :: (string, nat) provider))) =
       [ex_request ''a.ts'' False, ex_request ''b.ts'' True]
   \<and> suspended
       (step (BodyEnds False (Inl TypeError))
         (run [Refresh (ex_request ''a.ts'' False), Refresh (ex_request ''b.ts'' True)]
            (initial :: (string, nat) provider))) =
       [ex_request ''b.ts'' True]"
proof -
  let ?s = "run [Refresh (ex_request ''a.ts'' False), Refresh (ex_request ''b.ts'' True)]
              (initial :: (string, nat) provider)"
  have su: "suspended ?s = [ex_request ''a.ts'' False]" by (simp add: ex_pass_with_pending)
  have pe: "pendingRefresh ?s = Some (ex_request ''b.ts'' True)" by (simp add: ex_pass_with_pending)
  have pa: "passes ?s = [ex_request ''a.ts'' False]" by (simp add: ex_pass_with_pending)
  have d: "document (ex_request ''b.ts'' True) \<noteq> None" by (simp add: ex_request_def)
  note t = pass_completion_resets[OF refl,
             of "[Refresh (ex_request ''a.ts'' False), Refresh (ex_request ''b.ts'' True)]",
             THEN conjunct1, rule_format, OF su, of False "Inl TypeError"]
  from t pe pa d
  have "passes (step (BodyEnds False (Inl TypeError)) ?s) =
          [ex_request ''a.ts'' False, ex_request ''b.ts'' True]
      \<and> suspended (step (BodyEnds False (Inl TypeError)) ?s) = [ex_request ''b.ts'' True]"
    by simp
  with su pe show ?thesis by blast
qed

end
